theory Spec2Isabelle
  imports Complex_Main "HOL-Library.Sublist" "HOL-Library.AList"
begin

section \<open>Strings as the JavaScript source uses them\<close>

text \<open>
  \<open>s.split(sep)\<close> for a non-empty separator: the pieces between the non-overlapping
  occurrences of \<open>sep\<close>, scanned from the left. The result is never empty: the empty
  string splits into the one-element array holding the empty string.
\<close>

function js_split :: "string \<Rightarrow> string \<Rightarrow> string list" where
  "js_split sep [] = [[]]"
| "js_split sep (c # cs) =
     (if sep \<noteq> [] \<and> prefix sep (c # cs)
      then [] # js_split sep (drop (length sep) (c # cs))
      else (case js_split sep cs of
              [] \<Rightarrow> [[c]]
            | p # ps \<Rightarrow> (c # p) # ps))"
  by pat_completeness auto
termination
  by (relation "measure (\<lambda>(sep, s). length s)") (auto simp: neq_Nil_conv)

text \<open>\<open>_.last(name.split('.'))\<close>: the text after the last dot, the whole name without one.\<close>

definition final_suffix :: "string \<Rightarrow> string" where
  "final_suffix name = last (js_split ''.'' name)"

text \<open>\<open>s.indexOf(sub)\<close>: the index of the first occurrence of \<open>sub\<close>, or \<open>-1\<close>.\<close>

fun indexOf :: "string \<Rightarrow> string \<Rightarrow> int" where
  "indexOf [] sub = (if sub = [] then 0 else - 1)"
| "indexOf (c # cs) sub =
     (if prefix sub (c # cs) then 0
      else (let i = indexOf cs sub in if i = - 1 then - 1 else i + 1))"

text \<open>\<open>name.replace(/\.json$/, '.md')\<close>: only a trailing \<open>.json\<close> is replaced.\<close>

definition replace_json_md :: "string \<Rightarrow> string" where
  "replace_json_md name =
     (if suffix ''.json'' name then take (length name - 5) name @ ''.md'' else name)"

section \<open>Input files and their classification\<close>

datatype error = TypeError | SyntaxError | DecodeError | PersistError | CorruptArchive

text \<open>An entry of \<open>zip.files\<close>: its name, the directory flag, and what
  \<open>async('string')\<close> settles with.\<close>

record zentry =
  name :: string
  dir :: bool
  body :: "error + string"

text \<open>\<open>zip.files\<close> in enumeration order.\<close>

type_synonym zip = "zentry list"

text \<open>
  The \<open>File\<close> handed to the component: \<open>type\<close>, \<open>name\<close> and \<open>size\<close>, and what the
  \<open>FileReader\<close> produces for it. \<open>None\<close> stands for a read that ends with the reader's
  \<open>error\<close> event, so that \<open>onload\<close> never fires; \<open>archive\<close> holds the outcome of
  \<open>loadAsync\<close> on the bytes read.
\<close>

record input_file =
  file_type :: string
  file_name :: string
  file_size :: nat
  file_text :: "string option"
  file_archive :: "(error + zip) option"

definition isZipFile :: "input_file \<Rightarrow> bool" where
  "isZipFile f \<longleftrightarrow>
     file_type f = ''application/zip'' \<or> final_suffix (file_name f) = ''zip''"

definition isKey :: "input_file \<Rightarrow> bool" where
  "isKey f \<longleftrightarrow>
     file_type f = ''text/plain'' \<and> final_suffix (file_name f) = ''asc'' \<and> file_size f \<ge> 2500"

datatype kind = Archive | Key | Unknown

text \<open>The branch \<open>init\<close> takes for the first file.\<close>

definition classify :: "input_file \<Rightarrow> kind" where
  "classify f = (if isZipFile f then Archive else if isKey f then Key else Unknown)"

section \<open>Decoded JSON\<close>

text \<open>
  What \<open>JSON.parse\<close> returns. An array carries, besides its elements, the named
  properties assigned to it later (none after parsing). Property names are meant to be
  neither array indices nor inherited ones.
\<close>

datatype json =
    JNull
  | JBool bool
  | JNum rat
  | JStr string
  | JArr "json list" "(string \<times> json) list"
  | JObj "(string \<times> json) list"

text \<open>\<open>v.k\<close>: \<open>None\<close> is \<open>undefined\<close>; reading a property of \<open>null\<close> throws.\<close>

fun get_prop :: "json \<Rightarrow> string \<Rightarrow> error + json option" where
  "get_prop JNull k = Inl TypeError"
| "get_prop (JObj fs) k = Inr (map_of fs k)"
| "get_prop (JArr xs ps) k =
     Inr (if k = ''length'' then Some (JNum (of_nat (length xs))) else map_of ps k)"
| "get_prop (JStr s) k =
     Inr (if k = ''length'' then Some (JNum (of_nat (length s))) else None)"
| "get_prop (JBool b) k = Inr None"
| "get_prop (JNum n) k = Inr None"

text \<open>\<open>v.k = x\<close> in strict code (a class body): creating a property on a primitive throws.\<close>

fun set_prop :: "json \<Rightarrow> string \<Rightarrow> json \<Rightarrow> error + json" where
  "set_prop (JObj fs) k x = Inr (JObj (AList.update k x fs))"
| "set_prop (JArr xs ps) k x = Inr (JArr xs (AList.update k x ps))"
| "set_prop v k x = Inl TypeError"

fun truthy :: "json option \<Rightarrow> bool" where
  "truthy None = False"
| "truthy (Some JNull) = False"
| "truthy (Some (JBool b)) = b"
| "truthy (Some (JNum n)) = (n \<noteq> 0)"
| "truthy (Some (JStr s)) = (s \<noteq> [])"
| "truthy (Some (JArr xs ps)) = True"
| "truthy (Some (JObj fs)) = True"

text \<open>The test \<open>data.encryptedData && data.encryptedData.length\<close> of \<open>readMarkdown\<close>.\<close>

definition has_encrypted :: "json \<Rightarrow> error + bool" where
  "has_encrypted data =
     (case get_prop data ''encryptedData'' of
        Inl e \<Rightarrow> Inl e
      | Inr None \<Rightarrow> Inr False
      | Inr (Some v) \<Rightarrow>
          if truthy (Some v)
          then (case get_prop v ''length'' of Inl e \<Rightarrow> Inl e | Inr l \<Rightarrow> Inr (truthy l))
          else Inr False)"

section \<open>Requests to the collections and the promises of one entry\<close>

text \<open>The third argument of \<open>Radio.request\<close>; a profile id is \<open>None\<close> when it is
  \<open>undefined\<close>, and \<open>dontValidate\<close> is \<open>False\<close> when it is left out.\<close>

datatype payload =
    ModelObject json "string option" bool
  | FromArray "string option" json
  | Config string string

text \<open>\<open>Radio.request(channel, method, payload)\<close>.\<close>

datatype request = Request string string payload

text \<open>
  The promise returned by one \<open>readFile\<close> call, by the asynchronous operation it waits
  for: the decoding of the entry (with the entry's name and what the decoding settles
  with), the decoding of the note's Markdown file (with the record, the profile id and
  what the decoding settles with), a request to a collection, or nothing any more.
\<close>

datatype task =
    AwaitText string "error + string"
  | AwaitMarkdown json "string option" "error + string"
  | AwaitSave request
  | Settled "error + unit"

text \<open>JSZip's \<open>zip.file(name)\<close>: \<open>null\<close> for a missing name and for a directory.\<close>

definition zip_file :: "zip \<Rightarrow> string \<Rightarrow> zentry option" where
  "zip_file z n =
     (case find (\<lambda>e. name e = n) z of
        None \<Rightarrow> None
      | Some e \<Rightarrow> if dir e then None else Some e)"

text \<open>\<open>xs[i]\<close> on an array: \<open>undefined\<close> out of range.\<close>

definition nth_opt :: "'a list \<Rightarrow> nat \<Rightarrow> 'a option" where
  "nth_opt xs i = (if i < length xs then Some (xs ! i) else None)"

text \<open>Modelled from the spec: the \<open>_.capitalize\<close> mixin is not part of the module; the
  spec has it title-case the type name.\<close>

definition capitalize :: "string \<Rightarrow> string" where
  "capitalize s =
     (case s of
        [] \<Rightarrow> []
      | c # cs \<Rightarrow>
          (let n = (of_char c :: nat)
           in (if 97 \<le> n \<and> n \<le> 122 then char_of (n - 32) else c) # cs))"

definition importCollection :: "string option \<Rightarrow> json \<Rightarrow> string option \<Rightarrow> task" where
  "importCollection profileId data type =
     (case type of
        None \<Rightarrow> Settled (Inr ())
      | Some t \<Rightarrow>
          if t \<notin> set [''notebooks'', ''tags'', ''configs'', ''users'', ''files'']
          then Settled (Inr ())
          else AwaitSave (Request (''collections/'' @ capitalize t) ''saveFromArray''
                 (FromArray profileId data)))"

definition importFile :: "string option \<Rightarrow> json \<Rightarrow> task" where
  "importFile profileId data =
     AwaitSave (Request ''collections/Files'' ''saveModelObject''
       (ModelObject data profileId False))"

text \<open>
  \<open>readMarkdown\<close>: \<open>Inl\<close> when it throws, \<open>Inr None\<close> for \<open>Promise.resolve()\<close>,
  \<open>Inr (Some b)\<close> for the pending decoding of the Markdown entry, which settles with \<open>b\<close>.
\<close>

definition readMarkdown :: "json \<Rightarrow> string \<Rightarrow> zip \<Rightarrow> error + (error + string) option" where
  "readMarkdown data nm z =
     (case has_encrypted data of
        Inl e \<Rightarrow> Inl e
      | Inr True \<Rightarrow> Inr None
      | Inr False \<Rightarrow>
          (case zip_file z (replace_json_md nm) of
             None \<Rightarrow> Inl TypeError
           | Some md \<Rightarrow> Inr (Some (body md))))"

text \<open>The request \<open>importNote\<close> issues once \<open>readMarkdown\<close> has resolved.\<close>

definition saveNote :: "json \<Rightarrow> string option \<Rightarrow> task" where
  "saveNote data profileId =
     AwaitSave (Request ''collections/Notes'' ''saveModelObject''
       (ModelObject data profileId True))"

definition importNote :: "zip \<Rightarrow> string option \<Rightarrow> json \<Rightarrow> string \<Rightarrow> error + task" where
  "importNote z profileId data nm =
     (case readMarkdown data nm z of
        Inl e \<Rightarrow> Inl e
      | Inr None \<Rightarrow> Inr (saveNote data profileId)
      | Inr (Some b) \<Rightarrow> Inr (AwaitMarkdown data profileId b))"

text \<open>A callback of \<open>then\<close> that throws rejects the promise.\<close>

definition then_task :: "error + task \<Rightarrow> task" where
  "then_task r = (case r of Inl e \<Rightarrow> Settled (Inl e) | Inr t \<Rightarrow> t)"

text \<open>The callback of \<open>readFile\<close>, run with the decoded text \<open>res\<close> of the entry;
  \<open>parse\<close> is \<open>JSON.parse\<close>.\<close>

definition readFile_then ::
  "(string \<Rightarrow> error + json) \<Rightarrow> zip \<Rightarrow> string \<Rightarrow> string \<Rightarrow> task" where
  "readFile_then parse z nm res =
     (let path = js_split ''/'' nm;
          profileId = (if nth_opt path 1 = Some ''notes-db'' then Some ''default''
                       else nth_opt path 1)
      in case parse res of
           Inl e \<Rightarrow> Settled (Inl e)
         | Inr data \<Rightarrow>
             if nth_opt path 2 = Some ''notes''
             then then_task (importNote z profileId data nm)
             else if nth_opt path 2 = Some ''files''
             then importFile profileId data
             else (case nth_opt path 2 of
                     None \<Rightarrow> Settled (Inl TypeError)
                   | Some p2 \<Rightarrow>
                       importCollection profileId data (nth_opt (js_split ''.json'' p2) 0)))"

text \<open>\<open>readFile\<close> up to its first asynchronous operation; \<open>Inl\<close> when it throws
  (\<open>file\<close> is \<open>undefined\<close>, or \<open>zip.file\<close> returns \<open>null\<close>).\<close>

definition readFile :: "zip \<Rightarrow> zentry option \<Rightarrow> error + task" where
  "readFile z file =
     (case file of
        None \<Rightarrow> Inl TypeError
      | Some f \<Rightarrow>
          (case zip_file z (name f) of
             None \<Rightarrow> Inl TypeError
           | Some e \<Rightarrow> Inr (AwaitText (name f) (body e))))"

text \<open>
  The operation a task waits for settles; \<open>r\<close> is the answer of the collection when the
  task waits for a request (\<open>None\<close> for success), the archive decides the others.
\<close>

fun task_step :: "(string \<Rightarrow> error + json) \<Rightarrow> zip \<Rightarrow> error option \<Rightarrow> task \<Rightarrow> task" where
  "task_step parse z r (AwaitText nm (Inl e)) = Settled (Inl e)"
| "task_step parse z r (AwaitText nm (Inr res)) = readFile_then parse z nm res"
| "task_step parse z r (AwaitMarkdown data profileId (Inl e)) = Settled (Inl e)"
| "task_step parse z r (AwaitMarkdown data profileId (Inr content)) =
     (case set_prop data ''content'' (JStr content) of
        Inl e \<Rightarrow> Settled (Inl e)
      | Inr data' \<Rightarrow> saveNote data' profileId)"
| "task_step parse z r (AwaitSave c) =
     Settled (case r of None \<Rightarrow> Inr () | Some e \<Rightarrow> Inl e)"
| "task_step parse z r (Settled x) = Settled x"

section \<open>The import of an archive\<close>

text \<open>
  The loop of \<open>import\<close> over \<open>zip.files\<close>, with the array \<open>promises\<close> and the variable
  \<open>configFile\<close>. A \<open>readFile\<close> that throws inside the loop ends it: the third component
  is the error thrown, and the promises pushed so far stay as they are.
\<close>

fun import_loop ::
  "zip \<Rightarrow> zentry list \<Rightarrow> task list \<Rightarrow> zentry option
     \<Rightarrow> task list \<times> zentry option \<times> error option" where
  "import_loop z [] promises configFile = (promises, configFile, None)"
| "import_loop z (file # rest) promises configFile =
     (if dir file \<or> final_suffix (name file) \<noteq> ''json''
      then import_loop z rest promises configFile
      else if indexOf (name file) ''configs.json'' = - 1
      then (case readFile z (Some file) of
              Inl e \<Rightarrow> (promises, configFile, Some e)
            | Inr t \<Rightarrow> import_loop z rest (promises @ [t]) configFile)
      else import_loop z rest promises (Some file))"

datatype aggregate = Pending | Fulfilled | Rejected error

text \<open>Who issued a request: the \<open>i\<close>-th promise of phase 1, the configuration import
  of phase 2, or the key import.\<close>

datatype tid = P1 nat | P2 | K

text \<open>
  One archive import while it runs: the array \<open>promises\<close>, the state of
  \<open>Promise.all(promises)\<close>, \<open>configFile\<close>, the promise of the \<open>readFile\<close> call of phase 2
  (\<open>None\<close> as long as the call has not been made), and the requests issued so far.
\<close>

record istate =
  promises :: "task list"
  promise_all :: aggregate
  configFile :: "zentry option"
  phase2 :: "task option"
  requests :: "(tid \<times> request) list"

fun is_settled :: "task \<Rightarrow> bool" where
  "is_settled (Settled x) = True"
| "is_settled t = False"

fun fulfilled :: "task \<Rightarrow> bool" where
  "fulfilled (Settled (Inr u)) = True"
| "fulfilled t = False"

fun rejected :: "task \<Rightarrow> bool" where
  "rejected (Settled (Inl e)) = True"
| "rejected t = False"

text \<open>The request a task issues on entering a state.\<close>

fun issued :: "tid \<Rightarrow> task \<Rightarrow> (tid \<times> request) list" where
  "issued t (AwaitSave c) = [(t, c)]"
| "issued t other = []"

text \<open>The callback \<open>() => this.readFile(zip, configFile)\<close>, run when
  \<open>Promise.all\<close> is fulfilled.\<close>

definition start_phase2 :: "zip \<Rightarrow> istate \<Rightarrow> istate" where
  "start_phase2 z s =
     s\<lparr>promise_all := Fulfilled, phase2 := Some (then_task (readFile z (configFile s)))\<rparr>"

text \<open>The state \<open>import\<close> leaves when it returns; \<open>Promise.all\<close> of an empty array is
  fulfilled at once.\<close>

definition import_start :: "zip \<Rightarrow> istate" where
  "import_start z =
     (case import_loop z z [] None of
        (ps, cf, thrown) \<Rightarrow>
          (let s = \<lparr>promises = ps, promise_all = Pending, configFile = cf,
                    phase2 = None, requests = []\<rparr>
           in case thrown of
                Some e \<Rightarrow> s\<lparr>promise_all := Rejected e\<rparr>
              | None \<Rightarrow> if ps = [] then start_phase2 z s else s))"

text \<open>An event of the environment: the operation that a task waits for settles.\<close>

datatype event = Settle tid "error option"

text \<open>
  One event. \<open>Promise.all\<close> is rejected by the first promise that is rejected and
  fulfilled once all are fulfilled; only then is the \<open>readFile\<close> call of phase 2 made.
  An event for a task that waits for nothing changes nothing.
\<close>

fun step :: "(string \<Rightarrow> error + json) \<Rightarrow> zip \<Rightarrow> event \<Rightarrow> istate \<Rightarrow> istate" where
  "step parse z (Settle (P1 i) r) s =
     (if i < length (promises s) \<and> \<not> is_settled (promises s ! i)
      then (let t = task_step parse z r (promises s ! i);
                s1 = s\<lparr>promises := (promises s)[i := t],
                        requests := requests s @ issued (P1 i) t\<rparr>
            in if promise_all s = Pending
               then (case t of
                       Settled (Inl e) \<Rightarrow> s1\<lparr>promise_all := Rejected e\<rparr>
                     | _ \<Rightarrow> if list_all fulfilled (promises s1)
                            then start_phase2 z s1 else s1)
               else s1)
      else s)"
| "step parse z (Settle P2 r) s =
     (case phase2 s of
        None \<Rightarrow> s
      | Some t \<Rightarrow>
          if is_settled t then s
          else (let t' = task_step parse z r t
                in s\<lparr>phase2 := Some t', requests := requests s @ issued P2 t'\<rparr>))"
| "step parse z (Settle K r) s = s"

fun run :: "(string \<Rightarrow> error + json) \<Rightarrow> zip \<Rightarrow> event list \<Rightarrow> istate \<Rightarrow> istate" where
  "run parse z [] s = s"
| "run parse z (ev # evs) s = run parse z evs (step parse z ev s)"

text \<open>What the promise returned by \<open>import\<close> has settled with, \<open>None\<close> while pending.\<close>

definition import_result :: "istate \<Rightarrow> (error + unit) option" where
  "import_result s =
     (case promise_all s of
        Pending \<Rightarrow> None
      | Rejected e \<Rightarrow> Some (Inl e)
      | Fulfilled \<Rightarrow> (case phase2 s of Some (Settled x) \<Rightarrow> Some x | _ \<Rightarrow> None))"

text \<open>
  What holds of every state an import can reach: \<open>Promise.all\<close> is fulfilled only when
  every promise is, it is pending only while no promise is rejected and one is still
  pending, the \<open>readFile\<close> call of phase 2 has been made only when \<open>Promise.all\<close> is
  fulfilled, and only then has phase 2 issued a request.
\<close>

definition barrier_inv :: "istate \<Rightarrow> bool" where
  "barrier_inv s \<longleftrightarrow>
     (promise_all s = Fulfilled \<longrightarrow> (\<forall>t\<in>set (promises s). fulfilled t))
   \<and> (promise_all s = Pending \<longrightarrow>
        (\<forall>t\<in>set (promises s). \<not> rejected t) \<and> (\<exists>t\<in>set (promises s). \<not> is_settled t))
   \<and> (phase2 s \<noteq> None \<longrightarrow> promise_all s = Fulfilled)
   \<and> (\<forall>c. (P2, c) \<in> set (requests s) \<longrightarrow> phase2 s \<noteq> None)"

section \<open>The operation\<close>

datatype signal = Started | Completed "error option"

text \<open>What an observer sees: the signals triggered on the channel, the requests issued
  to the collections, whether the reload of the page has been scheduled, and whether the
  promise returned by \<open>init\<close> is resolved.\<close>

record world =
  signals :: "signal list"
  calls :: "request list"
  reload :: bool
  resolved :: bool

definition onSuccess :: "world \<Rightarrow> world" where
  "onSuccess w =
     w\<lparr>signals := signals w @ [Completed None], reload := True, resolved := True\<rparr>"

definition onError :: "error \<Rightarrow> world \<Rightarrow> world" where
  "onError e w = w\<lparr>signals := signals w @ [Completed (Some e)], resolved := True\<rparr>"

definition settle :: "(error + unit) option \<Rightarrow> world \<Rightarrow> world" where
  "settle r w =
     (case r of None \<Rightarrow> w | Some (Inr u) \<Rightarrow> onSuccess w | Some (Inl e) \<Rightarrow> onError e w)"

text \<open>
  \<open>readText\<close> and \<open>readZip\<close>: what the promise settles with, \<open>None\<close> when it never
  settles. Both set only \<open>reader.onload\<close>, so a read that ends with the reader's \<open>error\<close>
  event leaves the promise pending; \<open>readText\<close> has no \<open>reject\<close> at all, \<open>readZip\<close>
  rejects when \<open>loadAsync\<close> does.
\<close>

definition readText :: "input_file \<Rightarrow> string option" where
  "readText f = file_text f"

definition readZip :: "input_file \<Rightarrow> (error + zip) option" where
  "readZip f = file_archive f"

text \<open>\<open>importData\<close> after the events \<open>evs\<close>.\<close>

definition importData :: "(string \<Rightarrow> error + json) \<Rightarrow> input_file \<Rightarrow> event list \<Rightarrow> world" where
  "importData parse f evs =
     (let w = \<lparr>signals = [Started], calls = [], reload = False, resolved = False\<rparr>
      in case readZip f of
           None \<Rightarrow> w
         | Some (Inl e) \<Rightarrow> onError e w
         | Some (Inr z) \<Rightarrow>
             (let s = run parse z evs (import_start z)
              in settle (import_result s) (w\<lparr>calls := map snd (requests s)\<rparr>)))"

text \<open>The answer to the request of the key import: its first event, if there is one.\<close>

fun key_answer :: "event list \<Rightarrow> error option option" where
  "key_answer [] = None"
| "key_answer (Settle K r # evs) = Some r"
| "key_answer (ev # evs) = key_answer evs"

text \<open>\<open>importKey\<close> after the events \<open>evs\<close>: the first event for the key import is the
  answer to the \<open>saveConfig\<close> request.\<close>

definition importKey :: "input_file \<Rightarrow> event list \<Rightarrow> world" where
  "importKey f evs =
     (let w = \<lparr>signals = [Started], calls = [], reload = False, resolved = False\<rparr>
      in case readText f of
           None \<Rightarrow> w
         | Some v \<Rightarrow>
             (let w1 = w\<lparr>calls := [Request ''collections/Configs'' ''saveConfig''
                                     (Config v ''privateKey'')]\<rparr>
              in case key_answer evs of
                   None \<Rightarrow> w1
                 | Some r \<Rightarrow> settle (Some (case r of None \<Rightarrow> Inr () | Some e \<Rightarrow> Inl e)) w1))"

text \<open>\<open>return Promise.resolve()\<close> at the end of \<open>init\<close>: nothing is triggered or requested.\<close>

definition idle :: world where
  "idle = \<lparr>signals = [], calls = [], reload = False, resolved = True\<rparr>"

text \<open>\<open>init\<close>, with \<open>this.options.files\<close> (\<open>None\<close> when absent).\<close>

definition init ::
  "(string \<Rightarrow> error + json) \<Rightarrow> input_file list option \<Rightarrow> event list \<Rightarrow> world" where
  "init parse files evs =
     (case files of
        Some (f # fs) \<Rightarrow>
          if isZipFile f then importData parse f evs
          else if isKey f then importKey f evs
          else idle
      | _ \<Rightarrow> idle)"

section \<open>Sample inputs\<close>

text \<open>A stand-in for \<open>JSON.parse\<close> on the two texts the sample archives hold.\<close>

definition sample_parse :: "string \<Rightarrow> error + json" where
  "sample_parse s =
     (if s = ''[]'' then Inr (JArr [] [])
      else if s = ''{}'' then Inr (JObj [])
      else Inl SyntaxError)"

text \<open>An archive with a collection of an unknown type only.\<close>

definition zip_unknown :: zip where
  "zip_unknown =
     [\<lparr>name = ''export/p1/unknowntype.json'', dir = False, body = Inr ''[]''\<rparr>]"

text \<open>An archive with one note, its Markdown file, and the configuration.\<close>

definition zip_note :: zip where
  "zip_note =
     [\<lparr>name = ''export/notes-db/notes/abc.json'', dir = False, body = Inr ''{}''\<rparr>,
      \<lparr>name = ''export/notes-db/notes/abc.md'', dir = False, body = Inr ''hello''\<rparr>,
      \<lparr>name = ''export/notes-db/configs.json'', dir = False, body = Inr ''[]''\<rparr>]"

text \<open>An archive without a configuration entry.\<close>

definition zip_no_config :: zip where
  "zip_no_config =
     [\<lparr>name = ''export/'', dir = True, body = Inl DecodeError\<rparr>,
      \<lparr>name = ''export/default/notebooks.json'', dir = False, body = Inr ''[]''\<rparr>]"

text \<open>An archive whose first entry cannot be decoded.\<close>

definition zip_failing :: zip where
  "zip_failing =
     [\<lparr>name = ''export/default/tags.json'', dir = False, body = Inl DecodeError\<rparr>,
      \<lparr>name = ''export/default/notebooks.json'', dir = False, body = Inr ''[]''\<rparr>,
      \<lparr>name = ''export/default/configs.json'', dir = False, body = Inr ''[]''\<rparr>]"

text \<open>An archive with two entries whose names contain \<open>configs.json\<close>.\<close>

definition zip_two_configs :: zip where
  "zip_two_configs =
     [\<lparr>name = ''export/default/configs.json'', dir = False, body = Inr ''[]''\<rparr>,
      \<lparr>name = ''export/default/tags.json'', dir = False, body = Inr ''[]''\<rparr>,
      \<lparr>name = ''export/p1/configs.json'', dir = False, body = Inr ''[]''\<rparr>]"

text \<open>A file taken for an archive, and one taken for a key that the reader fails on.\<close>

definition archive_file :: "zip \<Rightarrow> input_file" where
  "archive_file z =
     \<lparr>file_type = ''application/zip'', file_name = ''laverna-backup.zip'', file_size = 1024,
      file_text = None, file_archive = Some (Inr z)\<rparr>"

definition key_file :: "string option \<Rightarrow> input_file" where
  "key_file txt =
     \<lparr>file_type = ''text/plain'', file_name = ''private.asc'', file_size = 3000,
      file_text = txt, file_archive = None\<rparr>"

section \<open>Facts about the string operations\<close>

lemma js_split_not_Nil: "js_split sep s \<noteq> []"
  by (induction sep s rule: js_split.induct) (auto split: list.splits)

lemma js_split_no_sep: "d \<notin> set s \<Longrightarrow> js_split [d] s = [s]"
  by (induction s) auto

lemma js_split_two: "d \<in> set s \<Longrightarrow> 2 \<le> length (js_split [d] s)"
proof (induction s)
  case Nil
  then show ?case by simp
next
  case (Cons c cs)
  show ?case
  proof (cases "c = d")
    case True
    then show ?thesis
      using js_split_not_Nil [of "[d]" cs] by (cases "js_split [d] cs") auto
  next
    case False
    with Cons show ?thesis
      by (auto split: list.splits)
  qed
qed

lemma last_js_split_append:
  "last (js_split [d] (a @ d # b)) = last (js_split [d] b)"
proof (induction a)
  case Nil
  then show ?case by (simp add: js_split_not_Nil)
next
  case (Cons x a)
  show ?case
  proof (cases "x = d")
    case True
    with Cons show ?thesis by (simp add: js_split_not_Nil)
  next
    case False
    have "2 \<le> length (js_split [d] (a @ d # b))"
      by (rule js_split_two) simp
    then obtain p q ps where "js_split [d] (a @ d # b) = p # q # ps"
      by (cases "js_split [d] (a @ d # b)"; cases "tl (js_split [d] (a @ d # b))") auto
    with False Cons show ?thesis by simp
  qed
qed

text \<open>The final dotted suffix is the whole name when there is no dot, and the text
  after the last dot otherwise.\<close>

lemma final_suffix_no_dot: "CHR ''.'' \<notin> set n \<Longrightarrow> final_suffix n = n"
  by (simp add: final_suffix_def js_split_no_sep)

lemma final_suffix_dot:
  "CHR ''.'' \<notin> set b \<Longrightarrow> final_suffix (a @ ''.'' @ b) = b"
  using last_js_split_append [of "CHR ''.''" a b]
  by (simp add: final_suffix_def js_split_no_sep)

lemma indexOf_lower: "- 1 \<le> indexOf s sub"
  by (induction s) (auto simp: Let_def)

text \<open>\<open>indexOf\<close> differs from \<open>-1\<close> exactly when the text occurs somewhere in the string.\<close>

lemma indexOf_sublist: "indexOf s sub \<noteq> - 1 \<longleftrightarrow> sublist sub s"
proof (induction s)
  case Nil
  then show ?case by simp
next
  case (Cons c cs)
  have "indexOf cs sub + 1 \<noteq> - 1"
    using indexOf_lower [of cs sub] by arith
  with Cons show ?case
    by (auto simp: Let_def sublist_Cons_right)
qed

section \<open>Classification of the input file\<close>

text \<open>
  C3. The first file is treated as an archive exactly when its media type is
  \<open>application/zip\<close> or its final dotted suffix is \<open>zip\<close>; as a key exactly when its
  media type is \<open>text/plain\<close>, its final dotted suffix is \<open>asc\<close> and its size is at
  least 2500; as unknown in every other case. \<open>init\<close> follows this classification, and
  does nothing for an unknown file.
\<close>

theorem classify_iff:
  "(classify f = Archive \<longleftrightarrow>
      file_type f = ''application/zip'' \<or> final_suffix (file_name f) = ''zip'')
   \<and> (classify f = Key \<longleftrightarrow>
      file_type f = ''text/plain'' \<and> final_suffix (file_name f) = ''asc''
        \<and> 2500 \<le> file_size f)
   \<and> (classify f = Unknown \<longleftrightarrow>
      \<not> (file_type f = ''application/zip'' \<or> final_suffix (file_name f) = ''zip'')
        \<and> \<not> (file_type f = ''text/plain'' \<and> final_suffix (file_name f) = ''asc''
              \<and> 2500 \<le> file_size f))
   \<and> init parse (Some (f # fs)) evs =
       (case classify f of
          Archive \<Rightarrow> importData parse f evs
        | Key \<Rightarrow> importKey f evs
        | Unknown \<Rightarrow> \<lparr>signals = [], calls = [], reload = False, resolved = True\<rparr>)"
  by (auto simp: classify_def isZipFile_def isKey_def init_def idle_def)

theorem classify_iff_witness:
  "classify \<lparr>file_type = [], file_name = ''backup.zip'', file_size = 10,
             file_text = None, file_archive = None\<rparr> = Archive
   \<and> classify \<lparr>file_type = ''text/plain'', file_name = ''private.asc'', file_size = 2500,
               file_text = None, file_archive = None\<rparr> = Key
   \<and> classify \<lparr>file_type = ''text/plain'', file_name = ''private.asc'', file_size = 2499,
               file_text = None, file_archive = None\<rparr> = Unknown
   \<and> init (\<lambda>s. Inl SyntaxError) (Some [\<lparr>file_type = ''text/plain'', file_name = ''private.asc'',
         file_size = 2499, file_text = None, file_archive = None\<rparr>]) []
       = \<lparr>signals = [], calls = [], reload = False, resolved = True\<rparr>"
  using
    classify_iff [of "\<lparr>file_type = [], file_name = ''backup.zip'', file_size = 10,
       file_text = None, file_archive = None\<rparr>" "\<lambda>s. Inl SyntaxError" "[]" "[]"]
    classify_iff [of "\<lparr>file_type = ''text/plain'', file_name = ''private.asc'',
       file_size = 2500, file_text = None, file_archive = None\<rparr>" "\<lambda>s. Inl SyntaxError" "[]" "[]"]
    classify_iff [of "\<lparr>file_type = ''text/plain'', file_name = ''private.asc'',
       file_size = 2499, file_text = None, file_archive = None\<rparr>" "\<lambda>s. Inl SyntaxError" "[]" "[]"]
  by (simp add: final_suffix_def)

text \<open>
  C9. A name without a dot is its own final dotted suffix: a file named \<open>zip\<close> is an
  archive whatever its media type, and a file named \<open>asc\<close> of media type \<open>text/plain\<close>
  and size at least 2500 is a key.
\<close>

theorem suffix_of_dotless_name:
  "(CHR ''.'' \<notin> set (file_name f) \<longrightarrow> final_suffix (file_name f) = file_name f)
   \<and> (file_name f = ''zip'' \<longrightarrow> classify f = Archive)
   \<and> (file_name f = ''asc'' \<and> file_type f = ''text/plain'' \<and> 2500 \<le> file_size f
        \<longrightarrow> classify f = Key)"
proof (intro conjI impI)
  assume "CHR ''.'' \<notin> set (file_name f)"
  then show "final_suffix (file_name f) = file_name f"
    by (rule final_suffix_no_dot)
next
  assume "file_name f = ''zip''"
  then have "final_suffix (file_name f) = ''zip''"
    by (simp add: final_suffix_no_dot)
  then show "classify f = Archive"
    by (simp add: classify_def isZipFile_def)
next
  assume a: "file_name f = ''asc'' \<and> file_type f = ''text/plain'' \<and> 2500 \<le> file_size f"
  then have "final_suffix (file_name f) = ''asc''"
    by (simp add: final_suffix_no_dot)
  with a show "classify f = Key"
    by (simp add: classify_def isZipFile_def isKey_def)
qed

theorem suffix_of_dotless_name_witness:
  "CHR ''.'' \<notin> set ''zip'' \<and> final_suffix ''zip'' = ''zip''
   \<and> classify \<lparr>file_type = ''image/png'', file_name = ''zip'', file_size = 0,
         file_text = None, file_archive = None\<rparr> = Archive
   \<and> classify \<lparr>file_type = ''text/plain'', file_name = ''asc'', file_size = 4096,
         file_text = None, file_archive = None\<rparr> = Key"
  using
    suffix_of_dotless_name [of "\<lparr>file_type = ''image/png'', file_name = ''zip'',
       file_size = 0, file_text = None, file_archive = None\<rparr>"]
    suffix_of_dotless_name [of "\<lparr>file_type = ''text/plain'', file_name = ''asc'',
       file_size = 4096, file_text = None, file_archive = None\<rparr>"]
  by simp

section \<open>No input file\<close>

text \<open>
  C8. With an absent or empty list of files \<open>init\<close> resolves at once: no \<open>started\<close>
  and no \<open>completed\<close> signal is triggered, and no request is issued to a collection.
\<close>

theorem init_without_files:
  "init parse None evs = \<lparr>signals = [], calls = [], reload = False, resolved = True\<rparr>
   \<and> init parse (Some []) evs = \<lparr>signals = [], calls = [], reload = False, resolved = True\<rparr>"
  by (simp add: init_def idle_def)

section \<open>The import of one entry\<close>

lemma hd_js_split: "nth_opt (js_split sep s) 0 = Some (hd (js_split sep s))"
  using js_split_not_Nil [of sep s] by (cases "js_split sep s") (auto simp: nth_opt_def)

text \<open>
  C5. An entry routed to \<open>importCollection\<close> whose type name, the part of the third path
  segment before \<open>.json\<close>, is none of notebooks, tags, configs, users and files: when
  its text has been decoded and parsed, its promise is fulfilled, no request has been
  issued, and \<open>Promise.all\<close> is not rejected by it.
\<close>

theorem unknown_collection_skipped:
  assumes seg: "nth_opt (js_split ''/'' nm) 2 = Some p2"
    and p2: "p2 \<noteq> ''notes''" "p2 \<noteq> ''files''"
    and ty: "hd (js_split ''.json'' p2)
               \<notin> set [''notebooks'', ''tags'', ''configs'', ''users'', ''files'']"
    and parse: "parse res = Inr data"
    and i: "i < length (promises s)" "promises s ! i = AwaitText nm (Inr res)"
  shows "importCollection pid data (Some (hd (js_split ''.json'' p2))) = Settled (Inr ())
    \<and> promises (step parse z (Settle (P1 i) r) s) ! i = Settled (Inr ())
    \<and> requests (step parse z (Settle (P1 i) r) s) = requests s
    \<and> (\<forall>e. promise_all (step parse z (Settle (P1 i) r) s) = Rejected e
          \<longrightarrow> promise_all s = Rejected e)"
proof -
  have c: "importCollection q data (Some (hd (js_split ''.json'' p2))) = Settled (Inr ())"
    for q
    using ty by (simp add: importCollection_def)
  have t: "task_step parse z r (promises s ! i) = Settled (Inr ())"
    using seg p2 parse i c by (simp add: readFile_then_def Let_def hd_js_split)
  show ?thesis
    using c t i by (auto simp: Let_def start_phase2_def)
qed

theorem unknown_collection_skipped_witness:
  "nth_opt (js_split ''/'' ''export/p1/unknowntype.json'') 2 = Some ''unknowntype.json''
   \<and> hd (js_split ''.json'' ''unknowntype.json'')
        \<notin> set [''notebooks'', ''tags'', ''configs'', ''users'', ''files'']
   \<and> promises (import_start zip_unknown) ! 0
        = AwaitText ''export/p1/unknowntype.json'' (Inr ''[]'')
   \<and> promises (step sample_parse zip_unknown (Settle (P1 0) None) (import_start zip_unknown)) ! 0
        = Settled (Inr ())
   \<and> requests (step sample_parse zip_unknown (Settle (P1 0) None) (import_start zip_unknown))
        = requests (import_start zip_unknown)"
proof -
  have 1: "nth_opt (js_split ''/'' ''export/p1/unknowntype.json'') 2 = Some ''unknowntype.json''"
    by code_simp
  have 2: "''unknowntype.json'' \<noteq> ''notes''" "''unknowntype.json'' \<noteq> ''files''"
    by simp_all
  have 3: "hd (js_split ''.json'' ''unknowntype.json'')
        \<notin> set [''notebooks'', ''tags'', ''configs'', ''users'', ''files'']"
    by code_simp
  have 4: "sample_parse ''[]'' = Inr (JArr [] [])"
    by code_simp
  have 5: "0 < length (promises (import_start zip_unknown))"
    by code_simp
  have 6: "promises (import_start zip_unknown) ! 0
        = AwaitText ''export/p1/unknowntype.json'' (Inr ''[]'')"
    by code_simp
  note u = unknown_collection_skipped [where parse = sample_parse and z = zip_unknown
      and r = None and pid = None, OF 1 2 3 4 5 6]
  from u have a: "promises (step sample_parse zip_unknown (Settle (P1 0) None)
      (import_start zip_unknown)) ! 0 = Settled (Inr ())"
    by (rule conjunct1 [OF conjunct2])
  from u have b: "requests (step sample_parse zip_unknown (Settle (P1 0) None)
      (import_start zip_unknown)) = requests (import_start zip_unknown)"
    by (rule conjunct1 [OF conjunct2 [OF conjunct2]])
  show ?thesis by (intro conjI 1 3 6 a b)
qed



section \<open>The key import\<close>

text \<open>
  C7 fails on the code. The file is classified as a key, and the reader fails to read it:
  \<open>readText\<close> has no way to reject, so \<open>started\<close> is triggered and nothing else happens,
  whatever the collection would have answered. No request is issued, no \<open>completed\<close>
  signal carries the failure, and the promise of \<open>init\<close> stays pending, although
  \<open>importKey\<close> ends in \<open>catch\<close> with \<open>onError\<close>.
\<close>

theorem key_read_failure:
  "classify (key_file None) = Key
   \<and> init sample_parse (Some [key_file None]) [Settle K (Some PersistError)]
       = \<lparr>signals = [Started], calls = [], reload = False, resolved = False\<rparr>"
  by code_simp

text \<open>
  When the reader delivers the text of a key file, exactly one request is issued:
  \<open>saveConfig\<close> to \<open>collections/Configs\<close> with the text under the name \<open>privateKey\<close>. A
  failure of that request is the error of the \<open>completed\<close> signal and no reload is
  scheduled; a success gives \<open>completed\<close> without error.
\<close>

lemma key_import_delivered:
  assumes "classify f = Key" and "file_text f = Some v"
  shows "calls (init parse (Some (f # fs)) evs)
              = [Request ''collections/Configs'' ''saveConfig'' (Config v ''privateKey'')]
          \<and> (\<forall>e. key_answer evs = Some (Some e) \<longrightarrow>
                signals (init parse (Some (f # fs)) evs) = [Started, Completed (Some e)]
                \<and> \<not> reload (init parse (Some (f # fs)) evs))
          \<and> (key_answer evs = Some None \<longrightarrow>
                signals (init parse (Some (f # fs)) evs) = [Started, Completed None]
                \<and> reload (init parse (Some (f # fs)) evs))
          \<and> (key_answer evs = None \<longrightarrow>
                signals (init parse (Some (f # fs)) evs) = [Started])"
proof -
  from assms have "init parse (Some (f # fs)) evs = importKey f evs"
    by (simp add: classify_def init_def split: if_splits)
  with assms(2) show ?thesis
    by (auto simp: importKey_def readText_def settle_def onSuccess_def onError_def Let_def
        split: option.splits)
qed

section \<open>An archive without a configuration entry\<close>

text \<open>
  C2 fails on the code. The archive holds \<open>export/default/notebooks.json\<close> and no entry
  whose name contains \<open>configs.json\<close>; the notebooks are saved, and then \<open>readFile\<close> is
  called with the undefined \<open>configFile\<close> and throws: \<open>completed\<close> carries a
  \<open>TypeError\<close> and no reload is scheduled.
\<close>

theorem import_without_configs:
  "classify (archive_file zip_no_config) = Archive
   \<and> init sample_parse (Some [archive_file zip_no_config])
        [Settle (P1 0) None, Settle (P1 0) None]
     = \<lparr>signals = [Started, Completed (Some TypeError)],
        calls = [Request ''collections/Notebooks'' ''saveFromArray''
                   (FromArray (Some ''default'') (JArr [] []))],
        reload = False, resolved = True\<rparr>"
  by code_simp

section \<open>The barrier between the two phases\<close>

lemma settled_cases: "is_settled t \<longleftrightarrow> fulfilled t \<or> rejected t"
  by (cases t rule: fulfilled.cases) auto

lemma not_both: "fulfilled t \<Longrightarrow> \<not> rejected t"
  by (cases t rule: fulfilled.cases) auto

lemma rejected_iff: "rejected t \<longleftrightarrow> (\<exists>e. t = Settled (Inl e))"
  by (cases t rule: rejected.cases) auto

lemma issued_P1: "(P2, c) \<notin> set (issued (P1 i) t)"
  by (cases t) auto

lemma readFile_pending: "readFile z file = Inr t \<Longrightarrow> \<not> is_settled t"
  by (auto simp: readFile_def split: option.splits)

lemma import_loop_pending:
  "\<forall>t\<in>set ps. \<not> is_settled t \<Longrightarrow>
     \<forall>t\<in>set (fst (import_loop z rest ps cf)). \<not> is_settled t"
proof (induction rest arbitrary: ps cf)
  case Nil
  then show ?case by simp
next
  case (Cons f rest)
  show ?case
  proof (cases "readFile z (Some f)")
    case (Inl e)
    with Cons show ?thesis by simp
  next
    case (Inr t)
    then have "\<forall>u\<in>set (ps @ [t]). \<not> is_settled u"
      using Cons.prems readFile_pending [of z "Some f" t] by auto
    then have "\<forall>u\<in>set (fst (import_loop z rest (ps @ [t]) cf)). \<not> is_settled u"
      by (rule Cons.IH)
    with Inr Cons show ?thesis by simp
  qed
qed

lemma inv_start: "barrier_inv (import_start z)"
proof -
  obtain ps cf thrown where l: "import_loop z z [] None = (ps, cf, thrown)"
    by (cases "import_loop z z [] None") auto
  have pend: "\<forall>t\<in>set ps. \<not> is_settled t"
    using import_loop_pending [of "[]" z z None] l by simp
  show ?thesis
  proof (cases thrown)
    case (Some e)
    with l show ?thesis by (simp add: import_start_def barrier_inv_def)
  next
    case None
    show ?thesis
    proof (cases "ps = []")
      case True
      with None l show ?thesis
        by (simp add: import_start_def barrier_inv_def start_phase2_def)
    next
      case False
      then obtain t where "t \<in> set ps" by (cases ps) auto
      with pend have "\<exists>t\<in>set ps. \<not> is_settled t" "\<forall>t\<in>set ps. \<not> rejected t"
        by (auto simp: settled_cases)
      with None l False show ?thesis
        by (simp add: import_start_def barrier_inv_def)
    qed
  qed
qed

lemma inv_step_P1:
  assumes inv: "barrier_inv s"
  shows "barrier_inv (step parse z (Settle (P1 i) r) s)"
proof (cases "i < length (promises s) \<and> \<not> is_settled (promises s ! i)")
  case False
  with inv show ?thesis by auto
next
  case True
  define t where "t = task_step parse z r (promises s ! i)"
  define ps where "ps = (promises s)[i := t]"
  define s1 where "s1 = s\<lparr>promises := ps, requests := requests s @ issued (P1 i) t\<rparr>"
  have sub: "set ps \<subseteq> insert t (set (promises s))"
    unfolding ps_def by (rule set_update_subset_insert)
  have mem: "promises s ! i \<in> set (promises s)"
    using True by simp
  have req: "\<forall>c. (P2, c) \<in> set (requests s1) \<longrightarrow> (P2, c) \<in> set (requests s)"
    by (simp add: s1_def issued_P1)
  have nf: "promise_all s \<noteq> Fulfilled"
    using inv mem True by (auto simp: barrier_inv_def settled_cases)
  show ?thesis
  proof (cases "promise_all s")
    case Fulfilled
    with nf show ?thesis by simp
  next
    case (Rejected e)
    then have "step parse z (Settle (P1 i) r) s = s1"
      using True by (simp add: s1_def ps_def t_def Let_def)
    moreover have "barrier_inv s1"
      using inv Rejected req by (auto simp: barrier_inv_def s1_def)
    ultimately show ?thesis by simp
  next
    case Pending
    then have p2: "phase2 s = None"
      using inv by (auto simp: barrier_inv_def)
    have old: "\<forall>t\<in>set (promises s). \<not> rejected t"
      using inv Pending by (simp add: barrier_inv_def)
    show ?thesis
    proof (cases "rejected t")
      case True
      then obtain e where e: "t = Settled (Inl e)" by (auto simp: rejected_iff)
      then have "step parse z (Settle (P1 i) r) s = s1\<lparr>promise_all := Rejected e\<rparr>"
        using \<open>i < length (promises s) \<and> \<not> is_settled (promises s ! i)\<close> Pending
        by (simp add: s1_def ps_def t_def [symmetric] Let_def)
      moreover have "barrier_inv (s1\<lparr>promise_all := Rejected e\<rparr>)"
        using req p2 inv by (auto simp: barrier_inv_def s1_def)
      ultimately show ?thesis by simp
    next
      case nrej: False
      have eq: "step parse z (Settle (P1 i) r) s =
          (if list_all fulfilled ps then start_phase2 z s1 else s1)"
        using \<open>i < length (promises s) \<and> \<not> is_settled (promises s ! i)\<close> Pending nrej
        by (cases t rule: rejected.cases)
           (simp_all add: s1_def ps_def t_def [symmetric] Let_def)
      show ?thesis
      proof (cases "list_all fulfilled ps")
        case True
        then have "barrier_inv (start_phase2 z s1)"
          by (simp add: barrier_inv_def start_phase2_def s1_def list_all_iff)
        with eq True show ?thesis by simp
      next
        case False
        then obtain u where u: "u \<in> set ps" "\<not> fulfilled u"
          by (auto simp: list_all_iff)
        have nr: "\<forall>t\<in>set ps. \<not> rejected t"
          using sub old nrej by auto
        with u have "\<not> is_settled u" by (auto simp: settled_cases)
        with u nr have "barrier_inv s1"
          using Pending p2 req inv by (auto simp: barrier_inv_def s1_def)
        with eq False show ?thesis by simp
      qed
    qed
  qed
qed

lemma inv_step: "barrier_inv s \<Longrightarrow> barrier_inv (step parse z ev s)"
proof (cases ev)
  case (Settle tid r)
  assume inv: "barrier_inv s"
  show ?thesis
  proof (cases tid)
    case (P1 i)
    with Settle inv show ?thesis by (simp add: inv_step_P1 del: step.simps)
  next
    case P2
    with Settle inv show ?thesis
      by (auto simp: barrier_inv_def Let_def split: option.splits)
  next
    case K
    with Settle inv show ?thesis by simp
  qed
qed

lemma inv_run: "barrier_inv s \<Longrightarrow> barrier_inv (run parse z evs s)"
  by (induction evs arbitrary: s) (simp_all add: inv_step del: step.simps)

lemma inv_reachable: "barrier_inv (run parse z evs (import_start z))"
  by (rule inv_run) (rule inv_start)

lemma step_promises:
  "promises (step parse z ev s) = promises s
   \<or> (\<exists>i t. i < length (promises s) \<and> \<not> is_settled (promises s ! i)
         \<and> promises (step parse z ev s) = (promises s)[i := t])"
proof (cases ev)
  case (Settle tid r)
  show ?thesis
  proof (cases tid)
    case (P1 i)
    with Settle show ?thesis
      by (auto simp: Let_def start_phase2_def split: task.splits sum.splits)
  next
    case P2
    with Settle show ?thesis by (auto simp: Let_def split: option.splits)
  next
    case K
    with Settle show ?thesis by simp
  qed
qed

lemma step_keeps_rejected:
  assumes "\<exists>t\<in>set (promises s). rejected t"
  shows "\<exists>t\<in>set (promises (step parse z ev s)). rejected t"
proof -
  from assms obtain j where j: "j < length (promises s)" "rejected (promises s ! j)"
    by (auto simp: in_set_conv_nth)
  from step_promises [of parse z ev s] show ?thesis
  proof
    assume "promises (step parse z ev s) = promises s"
    with assms show ?thesis by simp
  next
    assume "\<exists>i t. i < length (promises s) \<and> \<not> is_settled (promises s ! i)
         \<and> promises (step parse z ev s) = (promises s)[i := t]"
    then obtain i t where i: "\<not> is_settled (promises s ! i)"
      "promises (step parse z ev s) = (promises s)[i := t]" by auto
    with j have "i \<noteq> j" by (auto simp: settled_cases)
    with i j have "promises (step parse z ev s) ! j = promises s ! j"
      "j < length (promises (step parse z ev s))" by simp_all
    with j show ?thesis by (metis nth_mem)
  qed
qed

lemma run_keeps_rejected:
  "\<exists>t\<in>set (promises s). rejected t \<Longrightarrow> \<exists>t\<in>set (promises (run parse z evs s)). rejected t"
  by (induction evs arbitrary: s) (simp_all add: step_keeps_rejected del: step.simps)

lemma run_append: "run parse z (evs @ later) s = run parse z later (run parse z evs s)"
  by (induction evs arbitrary: s) simp_all

lemma rejected_consequences:
  assumes inv: "barrier_inv s" and rej: "\<exists>t\<in>set (promises s). rejected t"
  shows "phase2 s = None \<and> (\<forall>c. (P2, c) \<notin> set (requests s))
     \<and> (\<exists>e. promise_all s = Rejected e)"
proof -
  from rej obtain t where t: "t \<in> set (promises s)" "rejected t" by auto
  have "promise_all s \<noteq> Fulfilled"
    using inv t not_both by (auto simp: barrier_inv_def)
  moreover have "promise_all s \<noteq> Pending"
    using inv t by (auto simp: barrier_inv_def)
  ultimately obtain e where e: "promise_all s = Rejected e"
    by (cases "promise_all s") auto
  with inv show ?thesis by (auto simp: barrier_inv_def)
qed

text \<open>
  C1. In every state an archive import can reach, the \<open>readFile\<close> call for the
  configuration entry has been made only if every promise of phase 1 is settled. Once a
  promise of phase 1 is rejected, that call is never made and phase 2 never issues a
  request, whatever happens later, and the \<open>completed\<close> signal of the operation carries
  an error.
\<close>

theorem config_after_phase1:
  "(phase2 (run parse z evs (import_start z)) \<noteq> None \<longrightarrow>
      (\<forall>t\<in>set (promises (run parse z evs (import_start z))). is_settled t))
   \<and> ((\<exists>t\<in>set (promises (run parse z evs (import_start z))). rejected t) \<longrightarrow>
        (\<forall>later. phase2 (run parse z (evs @ later) (import_start z)) = None
           \<and> (\<forall>c. (P2, c) \<notin> set (requests (run parse z (evs @ later) (import_start z)))))
      \<and> (\<forall>f fs. isZipFile f \<and> file_archive f = Some (Inr z) \<longrightarrow>
           (\<exists>e. signals (init parse (Some (f # fs)) evs) = [Started, Completed (Some e)])))"
proof -
  let ?s = "run parse z evs (import_start z)"
  have inv: "barrier_inv ?s" by (rule inv_reachable)
  have a: "\<forall>t\<in>set (promises ?s). is_settled t" if "phase2 ?s \<noteq> None"
  proof -
    from that inv have "\<forall>t\<in>set (promises ?s). fulfilled t"
      by (simp add: barrier_inv_def)
    then show ?thesis by (simp add: settled_cases)
  qed
  have b: "phase2 (run parse z (evs @ later) (import_start z)) = None
      \<and> (\<forall>c. (P2, c) \<notin> set (requests (run parse z (evs @ later) (import_start z))))"
    if rej: "\<exists>t\<in>set (promises ?s). rejected t" for later
  proof -
    have "barrier_inv (run parse z (evs @ later) (import_start z))" by (rule inv_reachable)
    moreover have "\<exists>t\<in>set (promises (run parse z (evs @ later) (import_start z))). rejected t"
      using rej by (simp add: run_append run_keeps_rejected)
    ultimately show ?thesis
      using rejected_consequences by blast
  qed
  have c: "\<exists>e. signals (init parse (Some (f # fs)) evs) = [Started, Completed (Some e)]"
    if rej: "\<exists>t\<in>set (promises ?s). rejected t"
      and f: "isZipFile f \<and> file_archive f = Some (Inr z)" for f fs
  proof -
    from rejected_consequences [OF inv rej] obtain e where "promise_all ?s = Rejected e"
      by auto
    then have "import_result ?s = Some (Inl e)" by (simp add: import_result_def)
    with f have "signals (init parse (Some (f # fs)) evs) = [Started, Completed (Some e)]"
      by (simp add: init_def importData_def readZip_def settle_def onError_def)
    then show ?thesis ..
  qed
  from a b c show ?thesis by blast
qed

theorem config_after_phase1_witness:
  "phase2 (run sample_parse zip_note
       [Settle (P1 0) None, Settle (P1 0) None, Settle (P1 0) None] (import_start zip_note))
     \<noteq> None
   \<and> list_all is_settled (promises (run sample_parse zip_note
       [Settle (P1 0) None, Settle (P1 0) None, Settle (P1 0) None] (import_start zip_note)))
   \<and> (\<exists>t\<in>set (promises (run sample_parse zip_failing [Settle (P1 0) None]
          (import_start zip_failing))). rejected t)
   \<and> phase2 (run sample_parse zip_failing
        ([Settle (P1 0) None] @ [Settle (P1 1) None, Settle (P1 1) None, Settle P2 None])
        (import_start zip_failing)) = None
   \<and> isZipFile (archive_file zip_failing)
   \<and> (\<exists>e. signals (init sample_parse (Some [archive_file zip_failing]) [Settle (P1 0) None])
         = [Started, Completed (Some e)])"
proof -
  have 1: "phase2 (run sample_parse zip_note
       [Settle (P1 0) None, Settle (P1 0) None, Settle (P1 0) None] (import_start zip_note))
     \<noteq> None" by code_simp
  have 2: "\<exists>t\<in>set (promises (run sample_parse zip_failing [Settle (P1 0) None]
          (import_start zip_failing))). rejected t" by code_simp
  have 3: "isZipFile (archive_file zip_failing)" by code_simp
  have 4: "file_archive (archive_file zip_failing) = Some (Inr zip_failing)"
    by (simp add: archive_file_def)
  note a = config_after_phase1 [of sample_parse zip_note
      "[Settle (P1 0) None, Settle (P1 0) None, Settle (P1 0) None]"]
  note b = config_after_phase1 [of sample_parse zip_failing "[Settle (P1 0) None]"]
  from a 1 have "\<forall>t\<in>set (promises (run sample_parse zip_note
       [Settle (P1 0) None, Settle (P1 0) None, Settle (P1 0) None] (import_start zip_note))).
         is_settled t" by blast
  then have a': "list_all is_settled (promises (run sample_parse zip_note
       [Settle (P1 0) None, Settle (P1 0) None, Settle (P1 0) None] (import_start zip_note)))"
    by (simp only: list_all_iff)
  from b 2 have b1: "phase2 (run sample_parse zip_failing
        ([Settle (P1 0) None] @ [Settle (P1 1) None, Settle (P1 1) None, Settle P2 None])
        (import_start zip_failing)) = None" by blast
  from b 2 3 4 have b2: "\<exists>e. signals (init sample_parse (Some [archive_file zip_failing])
      [Settle (P1 0) None]) = [Started, Completed (Some e)]" by blast
  show ?thesis by (intro conjI 1 a' 2 b1 3 b2)
qed

text \<open>
  The first entry of the archive cannot be decoded. When its promise is rejected,
  \<open>Promise.all\<close> is rejected and \<open>completed\<close> is triggered with the error, while the
  promise of the second entry is still pending: phase 1 has completed before all its
  imports have settled, against C6.
\<close>

theorem phase1_completion_counterexample:
  "promise_all (run sample_parse zip_failing [Settle (P1 0) None] (import_start zip_failing))
     = Rejected DecodeError
   \<and> \<not> is_settled
       (promises (run sample_parse zip_failing [Settle (P1 0) None] (import_start zip_failing)) ! 1)
   \<and> signals (init sample_parse (Some [archive_file zip_failing]) [Settle (P1 0) None])
       = [Started, Completed (Some DecodeError)]"
  by code_simp

text \<open>
  C6, amended. Phase 1 completes with success only once every one of its imports has
  settled with success; it completes with failure as soon as one import has settled with
  failure, whether or not the others have settled; and while it has not completed, an
  import is still pending.
\<close>

theorem phase1_completion:
  "(promise_all (run parse z evs (import_start z)) = Fulfilled \<longrightarrow>
      (\<forall>t\<in>set (promises (run parse z evs (import_start z))). fulfilled t))
   \<and> ((\<exists>t\<in>set (promises (run parse z evs (import_start z))). rejected t) \<longrightarrow>
        (\<exists>e. promise_all (run parse z evs (import_start z)) = Rejected e))
   \<and> (promise_all (run parse z evs (import_start z)) = Pending \<longrightarrow>
        (\<exists>t\<in>set (promises (run parse z evs (import_start z))). \<not> is_settled t))"
proof -
  let ?s = "run parse z evs (import_start z)"
  have inv: "barrier_inv ?s" by (rule inv_reachable)
  have a: "\<forall>t\<in>set (promises ?s). fulfilled t" if "promise_all ?s = Fulfilled"
    using that inv by (simp add: barrier_inv_def)
  have b: "\<exists>e. promise_all ?s = Rejected e" if "\<exists>t\<in>set (promises ?s). rejected t"
    using rejected_consequences [OF inv that] by simp
  have c: "\<exists>t\<in>set (promises ?s). \<not> is_settled t" if "promise_all ?s = Pending"
    using that inv by (simp add: barrier_inv_def)
  from a b c show ?thesis by blast
qed

theorem phase1_completion_witness:
  "promise_all (run sample_parse zip_note
       [Settle (P1 0) None, Settle (P1 0) None, Settle (P1 0) None] (import_start zip_note))
     = Fulfilled
   \<and> list_all fulfilled (promises (run sample_parse zip_note
       [Settle (P1 0) None, Settle (P1 0) None, Settle (P1 0) None] (import_start zip_note)))
   \<and> (\<exists>t\<in>set (promises (run sample_parse zip_failing [Settle (P1 0) None]
          (import_start zip_failing))). rejected t)
   \<and> (\<exists>e. promise_all (run sample_parse zip_failing [Settle (P1 0) None]
          (import_start zip_failing)) = Rejected e)
   \<and> promise_all (run sample_parse zip_note [] (import_start zip_note)) = Pending
   \<and> (\<exists>t\<in>set (promises (run sample_parse zip_note [] (import_start zip_note))).
         \<not> is_settled t)"
proof -
  have 1: "promise_all (run sample_parse zip_note
       [Settle (P1 0) None, Settle (P1 0) None, Settle (P1 0) None] (import_start zip_note))
     = Fulfilled" by code_simp
  have 2: "\<exists>t\<in>set (promises (run sample_parse zip_failing [Settle (P1 0) None]
          (import_start zip_failing))). rejected t" by code_simp
  have 3: "promise_all (run sample_parse zip_note [] (import_start zip_note)) = Pending"
    by code_simp
  note a = phase1_completion [of sample_parse zip_note
      "[Settle (P1 0) None, Settle (P1 0) None, Settle (P1 0) None]"]
  note b = phase1_completion [of sample_parse zip_failing "[Settle (P1 0) None]"]
  note c = phase1_completion [of sample_parse zip_note "[]"]
  from a 1 have "\<forall>t\<in>set (promises (run sample_parse zip_note
       [Settle (P1 0) None, Settle (P1 0) None, Settle (P1 0) None] (import_start zip_note))).
         fulfilled t" by blast
  then have a': "list_all fulfilled (promises (run sample_parse zip_note
       [Settle (P1 0) None, Settle (P1 0) None, Settle (P1 0) None] (import_start zip_note)))"
    by (simp only: list_all_iff)
  from b 2 have b': "\<exists>e. promise_all (run sample_parse zip_failing [Settle (P1 0) None]
          (import_start zip_failing)) = Rejected e" by blast
  from c 3 have c': "\<exists>t\<in>set (promises (run sample_parse zip_note [] (import_start zip_note))).
      \<not> is_settled t" by blast
  show ?thesis by (intro conjI 1 a' 2 b' 3 c')
qed

section \<open>The choice of the configuration entry\<close>

lemma find_distinct:
  "distinct (map name z) \<Longrightarrow> f \<in> set z \<Longrightarrow> find (\<lambda>e. name e = name f) z = Some f"
  by (induction z) (auto simp: image_iff)

lemma readFile_listed:
  "distinct (map name z) \<Longrightarrow> f \<in> set z \<Longrightarrow> \<not> dir f \<Longrightarrow>
     readFile z (Some f) = Inr (AwaitText (name f) (body f))"
  by (simp add: readFile_def zip_file_def find_distinct)

lemma import_loop_filter:
  assumes "distinct (map name z)" and "set rest \<subseteq> set z"
  shows "import_loop z rest ps cf =
     (ps @ map (\<lambda>f. AwaitText (name f) (body f))
            [f\<leftarrow>rest. \<not> dir f \<and> final_suffix (name f) = ''json''
                       \<and> \<not> sublist ''configs.json'' (name f)],
      (if [f\<leftarrow>rest. \<not> dir f \<and> final_suffix (name f) = ''json''
                       \<and> sublist ''configs.json'' (name f)] = [] then cf
       else Some (last [f\<leftarrow>rest. \<not> dir f \<and> final_suffix (name f) = ''json''
                       \<and> sublist ''configs.json'' (name f)])),
      None)"
  using assms(2)
proof (induction rest arbitrary: ps cf)
  case Nil
  then show ?case by simp
next
  case (Cons f rest)
  then have f: "f \<in> set z" and rest: "set rest \<subseteq> set z" by auto
  note IH = Cons.IH [OF rest]
  show ?case
  proof (cases "dir f \<or> final_suffix (name f) \<noteq> ''json''")
    case True
    then show ?thesis using IH by auto
  next
    case False
    show ?thesis
    proof (cases "sublist ''configs.json'' (name f)")
      case True
      then have "indexOf (name f) ''configs.json'' \<noteq> - 1" by (simp add: indexOf_sublist)
      with True False show ?thesis using IH by simp
    next
      case nc: False
      then have "indexOf (name f) ''configs.json'' = - 1"
        using indexOf_sublist [of "name f" "''configs.json''"] by simp
      with nc False show ?thesis
        using IH readFile_listed [OF assms(1) f] by simp
    qed
  qed
qed

lemma step_configFile: "configFile (step parse z ev s) = configFile s"
proof (cases ev)
  case (Settle tid r)
  show ?thesis
  proof (cases tid)
    case (P1 i)
    with Settle show ?thesis
      by (auto simp: Let_def start_phase2_def split: task.splits sum.splits)
  next
    case P2
    with Settle show ?thesis by (auto simp: Let_def split: option.splits)
  next
    case K
    with Settle show ?thesis by simp
  qed
qed

lemma run_configFile: "configFile (run parse z evs s) = configFile s"
  by (induction evs arbitrary: s) (simp_all add: step_configFile del: step.simps)

lemma step_length: "length (promises (step parse z ev s)) = length (promises s)"
  using step_promises [of parse z ev s] by auto

lemma run_length: "length (promises (run parse z evs s)) = length (promises s)"
  by (induction evs arbitrary: s) (simp_all add: step_length del: step.simps)

lemma import_start_fields:
  "promises (import_start z) = fst (import_loop z z [] None)
   \<and> configFile (import_start z) = fst (snd (import_loop z z [] None))"
  by (cases "import_loop z z [] None")
     (auto simp: import_start_def start_phase2_def Let_def split: option.splits)

lemma step_phase2:
  "phase2 (step parse z ev s) = phase2 s
   \<or> phase2 (step parse z ev s) = Some (then_task (readFile z (configFile s)))
   \<or> (\<exists>t r. phase2 s = Some t \<and> phase2 (step parse z ev s) = Some (task_step parse z r t))"
proof (cases ev)
  case (Settle tid r)
  show ?thesis
  proof (cases tid)
    case (P1 i)
    with Settle show ?thesis
      by (auto simp: Let_def start_phase2_def split: task.splits sum.splits)
  next
    case P2
    with Settle show ?thesis by (auto simp: Let_def split: option.splits)
  next
    case K
    with Settle show ?thesis by simp
  qed
qed

lemma phase2_origin_step:
  assumes "\<forall>t. phase2 s = Some t \<longrightarrow>
     (\<exists>rs. t = foldl (\<lambda>t r. task_step parse z r t) (then_task (readFile z (configFile s))) rs)"
  shows "\<forall>t. phase2 (step parse z ev s) = Some t \<longrightarrow>
     (\<exists>rs. t = foldl (\<lambda>t r. task_step parse z r t) (then_task (readFile z (configFile s))) rs)"
proof (intro allI impI)
  fix t
  assume t: "phase2 (step parse z ev s) = Some t"
  let ?start = "then_task (readFile z (configFile s))"
  from step_phase2 [of parse z ev s]
  consider "phase2 (step parse z ev s) = phase2 s"
    | "phase2 (step parse z ev s) = Some ?start"
    | u r where "phase2 s = Some u" "phase2 (step parse z ev s) = Some (task_step parse z r u)"
    by blast
  then show "\<exists>rs. t = foldl (\<lambda>t r. task_step parse z r t) ?start rs"
  proof cases
    case 1
    with t assms show ?thesis by simp
  next
    case 2
    with t have "t = foldl (\<lambda>t r. task_step parse z r t) ?start []" by simp
    then show ?thesis ..
  next
    case 3
    with assms obtain rs where "u = foldl (\<lambda>t r. task_step parse z r t) ?start rs" by blast
    with 3 t have "t = foldl (\<lambda>t r. task_step parse z r t) ?start (rs @ [r])" by simp
    then show ?thesis ..
  qed
qed

lemma phase2_origin_run:
  assumes "\<forall>t. phase2 s = Some t \<longrightarrow>
     (\<exists>rs. t = foldl (\<lambda>t r. task_step parse z r t) (then_task (readFile z (configFile s))) rs)"
  shows "\<forall>t. phase2 (run parse z evs s) = Some t \<longrightarrow>
     (\<exists>rs. t = foldl (\<lambda>t r. task_step parse z r t) (then_task (readFile z (configFile s))) rs)"
  using assms
proof (induction evs arbitrary: s)
  case Nil
  then show ?case by simp
next
  case (Cons ev evs)
  from phase2_origin_step [OF Cons.prems, of ev]
  have "\<forall>t. phase2 (step parse z ev s) = Some t \<longrightarrow>
     (\<exists>rs. t = foldl (\<lambda>t r. task_step parse z r t)
        (then_task (readFile z (configFile (step parse z ev s)))) rs)"
    by (simp only: step_configFile)
  from Cons.IH [OF this] show ?case
    by (simp only: run.simps step_configFile)
qed

lemma phase2_origin_start:
  "\<forall>t. phase2 (import_start z) = Some t \<longrightarrow>
     (\<exists>rs. t = foldl (\<lambda>t r. task_step parse z r t)
        (then_task (readFile z (configFile (import_start z)))) rs)"
proof (intro allI impI)
  fix t
  assume "phase2 (import_start z) = Some t"
  then have "t = foldl (\<lambda>t r. task_step parse z r t)
        (then_task (readFile z (configFile (import_start z)))) []"
    by (cases "import_loop z z [] None")
       (auto simp: import_start_def start_phase2_def Let_def split: option.splits if_splits)
  then show "\<exists>rs. t = foldl (\<lambda>t r. task_step parse z r t)
        (then_task (readFile z (configFile (import_start z)))) rs" ..
qed

lemma step_fulfilled_started:
  assumes "promise_all s = Fulfilled \<longrightarrow> phase2 s \<noteq> None"
  shows "promise_all (step parse z ev s) = Fulfilled \<longrightarrow> phase2 (step parse z ev s) \<noteq> None"
proof (cases ev)
  case (Settle tid r)
  show ?thesis
  proof (cases tid)
    case (P1 i)
    with Settle assms show ?thesis
      by (auto simp: Let_def start_phase2_def split: task.splits sum.splits)
  next
    case P2
    with Settle assms show ?thesis by (auto simp: Let_def split: option.splits)
  next
    case K
    with Settle assms show ?thesis by simp
  qed
qed

lemma run_fulfilled_started:
  "(promise_all s = Fulfilled \<longrightarrow> phase2 s \<noteq> None) \<Longrightarrow>
     promise_all (run parse z evs s) = Fulfilled \<longrightarrow> phase2 (run parse z evs s) \<noteq> None"
proof (induction evs arbitrary: s)
  case Nil
  then show ?case by simp
next
  case (Cons ev evs)
  from Cons.IH [OF step_fulfilled_started [OF Cons.prems, of parse z ev]]
  show ?case by (simp only: run.simps)
qed

lemma start_fulfilled_started:
  "promise_all (import_start z) = Fulfilled \<longrightarrow> phase2 (import_start z) \<noteq> None"
  by (cases "import_loop z z [] None")
     (auto simp: import_start_def start_phase2_def Let_def split: option.splits if_splits)

lemma fulfilled_started:
  "promise_all (run parse z evs (import_start z)) = Fulfilled \<Longrightarrow>
     phase2 (run parse z evs (import_start z)) \<noteq> None"
  using run_fulfilled_started [OF start_fulfilled_started, of parse z evs] by simp

lemma step_promise_all:
  "promise_all (step parse z ev s) = promise_all s
   \<or> promise_all (step parse z ev s) = Fulfilled
   \<or> (\<exists>e. promise_all (step parse z ev s) = Rejected e
          \<and> Settled (Inl e) \<in> set (promises (step parse z ev s)))"
proof (cases ev)
  case (Settle tid r)
  show ?thesis
  proof (cases tid)
    case (P1 i)
    with Settle show ?thesis
      by (auto simp: Let_def start_phase2_def set_update_memI split: task.splits sum.splits)
  next
    case P2
    with Settle show ?thesis by (auto simp: Let_def split: option.splits)
  next
    case K
    with Settle show ?thesis by simp
  qed
qed

lemma step_rejected_origin:
  assumes "(\<exists>e. promise_all s = Rejected e) \<longrightarrow> (\<exists>t\<in>set (promises s). rejected t)"
  shows "(\<exists>e. promise_all (step parse z ev s) = Rejected e)
     \<longrightarrow> (\<exists>t\<in>set (promises (step parse z ev s)). rejected t)"
proof
  assume "\<exists>e. promise_all (step parse z ev s) = Rejected e"
  then obtain e where e: "promise_all (step parse z ev s) = Rejected e" ..
  from step_promise_all [of parse z ev s]
  consider "promise_all (step parse z ev s) = promise_all s"
    | "promise_all (step parse z ev s) = Fulfilled"
    | e' where "Settled (Inl e') \<in> set (promises (step parse z ev s))"
    by blast
  then show "\<exists>t\<in>set (promises (step parse z ev s)). rejected t"
  proof cases
    case 1
    with e assms have "\<exists>t\<in>set (promises s). rejected t" by simp
    then show ?thesis by (rule step_keeps_rejected)
  next
    case 2
    with e show ?thesis by simp
  next
    case 3
    then show ?thesis by (rule bexI [rotated]) simp
  qed
qed

lemma run_rejected_origin:
  "(\<exists>e. promise_all s = Rejected e) \<longrightarrow> (\<exists>t\<in>set (promises s). rejected t) \<Longrightarrow>
   (\<exists>e. promise_all (run parse z evs s) = Rejected e)
     \<longrightarrow> (\<exists>t\<in>set (promises (run parse z evs s)). rejected t)"
proof (induction evs arbitrary: s)
  case Nil
  then show ?case by simp
next
  case (Cons ev evs)
  from Cons.IH [OF step_rejected_origin [OF Cons.prems, of parse z ev]]
  show ?case by (simp only: run.simps)
qed

lemma start_not_rejected:
  assumes "distinct (map name z)"
  shows "(\<exists>e. promise_all (import_start z) = Rejected e)
     \<longrightarrow> (\<exists>t\<in>set (promises (import_start z)). rejected t)"
  using import_loop_filter [OF assms subset_refl, of "[]" None]
  by (simp add: import_start_def start_phase2_def Let_def)

lemma all_fulfilled_started:
  assumes d: "distinct (map name z)"
    and f: "\<forall>t\<in>set (promises (run parse z evs (import_start z))). fulfilled t"
  shows "phase2 (run parse z evs (import_start z)) \<noteq> None"
proof -
  let ?s = "run parse z evs (import_start z)"
  have inv: "barrier_inv ?s" by (rule inv_reachable)
  have np: "promise_all ?s \<noteq> Pending"
    using inv f by (auto simp: barrier_inv_def settled_cases)
  have nr: "promise_all ?s \<noteq> Rejected e" for e
    using run_rejected_origin [OF start_not_rejected [OF d], where parse = parse and evs = evs]
      f not_both
    by blast
  from np nr have "promise_all ?s = Fulfilled"
    by (cases "promise_all ?s") auto
  then show ?thesis by (rule fulfilled_started)
qed

text \<open>
  C10. The entries of phase 1 are the files with final suffix \<open>json\<close> whose name does
  not contain \<open>configs.json\<close>, in the order of the archive; every such file whose name
  contains \<open>configs.json\<close> somewhere is kept out of phase 1. \<open>configFile\<close> is the last
  of these in the order of the archive, throughout the import. Once every promise of
  phase 1 is fulfilled, the \<open>readFile\<close> call of phase 2 has been made, and its promise
  is that of the decoding of this last entry, taken some steps further: the last matching
  entry is the one imported in phase 2, the earlier ones are imported in neither phase.
\<close>

theorem last_config_entry_wins:
  assumes "distinct (map name z)"
  shows "promises (import_start z) =
           map (\<lambda>f. AwaitText (name f) (body f))
             [f\<leftarrow>z. \<not> dir f \<and> final_suffix (name f) = ''json''
                      \<and> \<not> sublist ''configs.json'' (name f)]
     \<and> length (promises (run parse z evs (import_start z))) =
           length [f\<leftarrow>z. \<not> dir f \<and> final_suffix (name f) = ''json''
                      \<and> \<not> sublist ''configs.json'' (name f)]
     \<and> configFile (run parse z evs (import_start z)) =
           (if [f\<leftarrow>z. \<not> dir f \<and> final_suffix (name f) = ''json''
                      \<and> sublist ''configs.json'' (name f)] = [] then None
            else Some (last [f\<leftarrow>z. \<not> dir f \<and> final_suffix (name f) = ''json''
                      \<and> sublist ''configs.json'' (name f)]))
     \<and> ((\<forall>t\<in>set (promises (run parse z evs (import_start z))). fulfilled t) \<longrightarrow>
           phase2 (run parse z evs (import_start z)) \<noteq> None)
     \<and> ([f\<leftarrow>z. \<not> dir f \<and> final_suffix (name f) = ''json''
                      \<and> sublist ''configs.json'' (name f)] \<noteq> [] \<longrightarrow>
          (\<forall>t. phase2 (run parse z evs (import_start z)) = Some t \<longrightarrow>
             (\<exists>rs. t = foldl (\<lambda>t r. task_step parse z r t)
                (AwaitText
                   (name (last [f\<leftarrow>z. \<not> dir f \<and> final_suffix (name f) = ''json''
                      \<and> sublist ''configs.json'' (name f)]))
                   (body (last [f\<leftarrow>z. \<not> dir f \<and> final_suffix (name f) = ''json''
                      \<and> sublist ''configs.json'' (name f)]))) rs)))
     \<and> (\<forall>t. phase2 (run parse z evs (import_start z)) = Some t \<longrightarrow>
           (\<exists>rs. t = foldl (\<lambda>t r. task_step parse z r t)
              (then_task (readFile z
                 (if [f\<leftarrow>z. \<not> dir f \<and> final_suffix (name f) = ''json''
                      \<and> sublist ''configs.json'' (name f)] = [] then None
                  else Some (last [f\<leftarrow>z. \<not> dir f \<and> final_suffix (name f) = ''json''
                      \<and> sublist ''configs.json'' (name f)])))) rs))"
proof -
  let ?M = "[f\<leftarrow>z. \<not> dir f \<and> final_suffix (name f) = ''json''
                      \<and> sublist ''configs.json'' (name f)]"
  let ?O = "[f\<leftarrow>z. \<not> dir f \<and> final_suffix (name f) = ''json''
                      \<and> \<not> sublist ''configs.json'' (name f)]"
  let ?s = "run parse z evs (import_start z)"
  let ?cf = "if ?M = [] then None else Some (last ?M)"
  note loop = import_loop_filter [OF assms subset_refl, of "[]" None]
  have a: "promises (import_start z) = map (\<lambda>f. AwaitText (name f) (body f)) ?O"
    using loop by (simp add: import_start_fields)
  have b0: "configFile (import_start z) = ?cf"
    using loop by (simp add: import_start_fields)
  have l: "length (promises ?s) = length ?O"
    using a by (simp add: run_length)
  have b: "configFile ?s = ?cf"
    using b0 by (simp only: run_configFile)
  have c: "phase2 ?s \<noteq> None" if "\<forall>t\<in>set (promises ?s). fulfilled t"
    using assms that by (rule all_fulfilled_started)
  have e: "\<forall>t. phase2 ?s = Some t \<longrightarrow>
      (\<exists>rs. t = foldl (\<lambda>t r. task_step parse z r t) (then_task (readFile z ?cf)) rs)"
    using phase2_origin_run [OF phase2_origin_start, of parse z evs]
    by (simp only: b0)
  have d: "\<forall>t. phase2 ?s = Some t \<longrightarrow>
      (\<exists>rs. t = foldl (\<lambda>t r. task_step parse z r t)
         (AwaitText (name (last ?M)) (body (last ?M))) rs)" if m: "?M \<noteq> []"
  proof -
    from m have "last ?M \<in> set ?M" by (rule last_in_set)
    then have "last ?M \<in> set z" "\<not> dir (last ?M)" by simp_all
    then have "readFile z (Some (last ?M)) = Inr (AwaitText (name (last ?M)) (body (last ?M)))"
      using assms by (simp add: readFile_listed)
    then have "then_task (readFile z ?cf) = AwaitText (name (last ?M)) (body (last ?M))"
      using m by (simp add: then_task_def)
    with e show ?thesis by (simp only:)
  qed
  from a l b c d e show ?thesis by blast
qed

theorem last_config_entry_wins_witness:
  "distinct (map name zip_two_configs)
   \<and> promises (import_start zip_two_configs)
       = [AwaitText ''export/default/tags.json'' (Inr ''[]'')]
   \<and> configFile (run sample_parse zip_two_configs [Settle (P1 0) None, Settle (P1 0) None]
         (import_start zip_two_configs))
       = Some \<lparr>name = ''export/p1/configs.json'', dir = False, body = Inr ''[]''\<rparr>
   \<and> list_all fulfilled (promises (run sample_parse zip_two_configs
         [Settle (P1 0) None, Settle (P1 0) None] (import_start zip_two_configs)))
   \<and> phase2 (run sample_parse zip_two_configs [Settle (P1 0) None, Settle (P1 0) None]
         (import_start zip_two_configs)) \<noteq> None
   \<and> phase2 (run sample_parse zip_two_configs [Settle (P1 0) None, Settle (P1 0) None]
         (import_start zip_two_configs))
       = Some (AwaitText ''export/p1/configs.json'' (Inr ''[]''))
   \<and> requests (run sample_parse zip_two_configs
         [Settle (P1 0) None, Settle (P1 0) None, Settle P2 None] (import_start zip_two_configs))
       = [(P1 0, Request ''collections/Tags'' ''saveFromArray''
                   (FromArray (Some ''default'') (JArr [] []))),
          (P2, Request ''collections/Configs'' ''saveFromArray''
                   (FromArray (Some ''p1'') (JArr [] [])))]"
proof -
  have 1: "distinct (map name zip_two_configs)" by code_simp
  note t = last_config_entry_wins [OF 1, of sample_parse
      "[Settle (P1 0) None, Settle (P1 0) None]"]
  from t have "promises (import_start zip_two_configs) =
      map (\<lambda>f. AwaitText (name f) (body f))
        [f\<leftarrow>zip_two_configs. \<not> dir f \<and> final_suffix (name f) = ''json''
                      \<and> \<not> sublist ''configs.json'' (name f)]"
    by (rule conjunct1)
  also have "\<dots> = [AwaitText ''export/default/tags.json'' (Inr ''[]'')]"
    by code_simp
  finally have a: "promises (import_start zip_two_configs)
       = [AwaitText ''export/default/tags.json'' (Inr ''[]'')]" .
  from t have "configFile (run sample_parse zip_two_configs
         [Settle (P1 0) None, Settle (P1 0) None] (import_start zip_two_configs)) =
      (if [f\<leftarrow>zip_two_configs. \<not> dir f \<and> final_suffix (name f) = ''json''
                      \<and> sublist ''configs.json'' (name f)] = [] then None
       else Some (last [f\<leftarrow>zip_two_configs. \<not> dir f \<and> final_suffix (name f) = ''json''
                      \<and> sublist ''configs.json'' (name f)]))"
    by (rule conjunct1 [OF conjunct2 [OF conjunct2]])
  also have "\<dots> = Some \<lparr>name = ''export/p1/configs.json'', dir = False, body = Inr ''[]''\<rparr>"
    by code_simp
  finally have b: "configFile (run sample_parse zip_two_configs
         [Settle (P1 0) None, Settle (P1 0) None] (import_start zip_two_configs))
       = Some \<lparr>name = ''export/p1/configs.json'', dir = False, body = Inr ''[]''\<rparr>" .
  have f: "list_all fulfilled (promises (run sample_parse zip_two_configs
         [Settle (P1 0) None, Settle (P1 0) None] (import_start zip_two_configs)))"
    by code_simp
  then have "\<forall>t\<in>set (promises (run sample_parse zip_two_configs
         [Settle (P1 0) None, Settle (P1 0) None] (import_start zip_two_configs))). fulfilled t"
    by (simp only: list_all_iff)
  with t have c: "phase2 (run sample_parse zip_two_configs
         [Settle (P1 0) None, Settle (P1 0) None] (import_start zip_two_configs)) \<noteq> None"
    by blast
  have d: "phase2 (run sample_parse zip_two_configs [Settle (P1 0) None, Settle (P1 0) None]
         (import_start zip_two_configs))
       = Some (AwaitText ''export/p1/configs.json'' (Inr ''[]''))"
    by code_simp
  have e: "requests (run sample_parse zip_two_configs
         [Settle (P1 0) None, Settle (P1 0) None, Settle P2 None] (import_start zip_two_configs))
       = [(P1 0, Request ''collections/Tags'' ''saveFromArray''
                   (FromArray (Some ''default'') (JArr [] []))),
          (P2, Request ''collections/Configs'' ''saveFromArray''
                   (FromArray (Some ''p1'') (JArr [] [])))]"
    by code_simp
  show ?thesis by (intro conjI 1 a b f c d e)
qed

end
